theory Spec2Isabelle
  imports Main
begin

section \<open>Values, errors and thrown exceptions\<close>

text \<open>
  JavaScript values that travel in requests and responses. The value \<open>undefined\<close> is
  \<open>None\<close> of \<open>json option\<close>. Numbers are kept as integers (no request field that the
  server inspects is a fraction).
\<close>

datatype json =
    JNull
  | JBool bool
  | JNum int
  | JStr string
  | JArr "json list"
  | JObj "(string \<times> json) list"

text \<open>JavaScript truthiness, as used by \<open>!params\<close> and \<open>!name\<close>.\<close>

fun truthy :: "json option \<Rightarrow> bool" where
  "truthy None = False"
| "truthy (Some JNull) = False"
| "truthy (Some (JBool b)) = b"
| "truthy (Some (JNum n)) = (n \<noteq> 0)"
| "truthy (Some (JStr s)) = (s \<noteq> [])"
| "truthy (Some (JArr xs)) = True"
| "truthy (Some (JObj kvs)) = True"

text \<open>The \<open>typeof\<close> operator.\<close>

fun typeof :: "json option \<Rightarrow> string" where
  "typeof None = ''undefined''"
| "typeof (Some JNull) = ''object''"
| "typeof (Some (JBool b)) = ''boolean''"
| "typeof (Some (JNum n)) = ''number''"
| "typeof (Some (JStr s)) = ''string''"
| "typeof (Some (JArr xs)) = ''object''"
| "typeof (Some (JObj kvs)) = ''object''"

text \<open>
  Property access \<open>v.key\<close> for the keys the server reads (\<open>name\<close>, \<open>arguments\<close>): an
  object yields the stored value, every other value that reaches the access yields
  \<open>undefined\<close>.
\<close>

fun get_prop :: "json option \<Rightarrow> string \<Rightarrow> json option" where
  "get_prop (Some (JObj kvs)) key = map_of kvs key"
| "get_prop v key = None"

datatype error_code = InvalidRequest | InvalidParams | MethodNotFound | InternalError

text \<open>\<open>new McpError(code, message)\<close>: the code and the text handed to the constructor.\<close>

datatype mcp_error = McpError (code: error_code) (message: string)

text \<open>An element of a zod issue path is a property name or an array index.\<close>

datatype path_seg = Key string | Index nat

datatype zod_issue = ZodIssue (issue_path: "path_seg list") (issue_message: string)

text \<open>
  What a \<open>throw\<close> can carry, by the cases that the catch block of the call-tool handler
  tells apart: a \<open>z.ZodError\<close> with its issues, an \<open>McpError\<close>, any other \<open>Error\<close>
  with its message, and a value that is not an \<open>Error\<close>, given by \<open>String(value)\<close>.
\<close>

datatype thrown =
    ThrownZodError "zod_issue list"
  | ThrownMcpError mcp_error
  | ThrownError string
  | ThrownValue string

section \<open>Decimal rendering and string joining\<close>

definition digit_char :: "nat \<Rightarrow> char" where
  "digit_char d = char_of (48 + d)"

text \<open>\<open>String(n)\<close> and the template \<open>${n}\<close> for a non-negative integer.\<close>

function show_nat :: "nat \<Rightarrow> string" where
  "show_nat n = (if n < 10 then [digit_char n] else show_nat (n div 10) @ [digit_char (n mod 10)])"
  by pat_completeness auto
termination
  by (relation "measure id") auto

definition newline :: string where
  "newline = [CHR 0x0A]"

text \<open>\<open>Array.prototype.join(sep)\<close> on an array of strings.\<close>

fun join :: "string \<Rightarrow> string list \<Rightarrow> string" where
  "join sep [] = []"
| "join sep [x] = x"
| "join sep (x # y # ys) = x @ sep @ join sep (y # ys)"


fun seg_string :: "path_seg \<Rightarrow> string" where
  "seg_string (Key k) = k"
| "seg_string (Index i) = show_nat i"

section \<open>Admission control: \<open>ObsidianServer.validateRequest\<close>\<close>

text \<open>A decoded protocol request: \<open>request.method\<close> and \<open>request.params\<close>.\<close>

record request =
  request_method :: string
  params :: "json option"

text \<open>
  \<open>validateMessageSize\<close>, \<open>ConnectionMonitor.updateActivity\<close> and
  \<open>RateLimiter.checkLimit\<close> live in \<open>utils/security.ts\<close>, which is not part of the
  sources at hand. They are parameters of the model: the size guard either returns or
  throws, the monitor and the limiter transform their own state.
\<close>

record ('m, 'r) security =
  validateMessageSize :: "request \<Rightarrow> thrown option"
  updateActivity :: "'m \<Rightarrow> 'm"
  checkLimit :: "string \<Rightarrow> 'r \<Rightarrow> bool \<times> 'r"

text \<open>The calls the server makes to its collaborators, in the order it makes them.\<close>

datatype call =
    CallValidateMessageSize
  | CallUpdateActivity
  | CallCheckLimit string
  | CallParse string
  | CallHandler string

record schema =
  parse :: "json option \<Rightarrow> thrown + json"
  jsonSchema :: json

text \<open>
  \<open>Tool<T>\<close>: the handler is asynchronous and may touch the file system; \<open>'w\<close> is the
  state of everything outside the server that a handler can change.
\<close>

record 'w tool =
  name :: string
  description :: string
  inputSchema :: schema
  handler :: "json \<Rightarrow> 'w \<Rightarrow> (thrown + json) \<times> 'w"

text \<open>
  The fields of \<open>ObsidianServer\<close> that the request handlers use. \<open>tools\<close> and
  \<open>vaults\<close> (here \<open>vault_map\<close>) are JavaScript \<open>Map\<close>s: association lists in insertion
  order with unique keys.
\<close>

record ('m, 'r, 'w) server =
  tools :: "(string \<times> 'w tool) list"
  vault_map :: "(string \<times> string) list"
  connectionMonitor :: 'm
  rateLimiter :: 'r
  world :: 'w
  calls :: "call list"

definition rate_limit_error :: thrown where
  "rate_limit_error = ThrownMcpError (McpError InvalidRequest ''Rate limit exceeded'')"

text \<open>
  The \<open>try\<close> block runs the three steps in sequence; the \<open>catch\<close> block logs and rethrows
  the same error, so a throw leaves the function with the state reached so far.
\<close>

definition validateRequest ::
  "('m, 'r) security \<Rightarrow> request \<Rightarrow> ('m, 'r, 'w) server
     \<Rightarrow> (thrown + unit) \<times> ('m, 'r, 'w) server" where
  "validateRequest sec req s =
     (let s1 = s\<lparr>calls := calls s @ [CallValidateMessageSize]\<rparr> in
      case validateMessageSize sec req of
        Some e \<Rightarrow> (Inl e, s1)
      | None \<Rightarrow>
          (let s2 = s1\<lparr>connectionMonitor := updateActivity sec (connectionMonitor s1),
                       calls := calls s1 @ [CallUpdateActivity]\<rparr>;
               r = checkLimit sec (request_method req) (rateLimiter s2);
               s3 = s2\<lparr>rateLimiter := snd r,
                       calls := calls s2 @ [CallCheckLimit (request_method req)]\<rparr>
           in if \<not> fst r then (Inl rate_limit_error, s3) else (Inr (), s3)))"

section \<open>The tool registry\<close>

text \<open>\<open>Map.prototype.set\<close>: an existing key keeps its position and gets the new value,
  a new key is appended.\<close>

fun map_set :: "'k \<Rightarrow> 'v \<Rightarrow> ('k \<times> 'v) list \<Rightarrow> ('k \<times> 'v) list" where
  "map_set k v [] = [(k, v)]"
| "map_set k v ((k', v') # kvs) =
     (if k = k' then (k, v) # kvs else (k', v') # map_set k v kvs)"

text \<open>
  \<open>registerTool\<close> writes two log lines and assigns into the map. It has no \<open>throw\<close>;
  the result type has an error side so that a rejection could be expressed.
\<close>

definition registerTool ::
  "'w tool \<Rightarrow> ('m, 'r, 'w) server \<Rightarrow> mcp_error + ('m, 'r, 'w) server" where
  "registerTool t s = Inr (s\<lparr>tools := map_set (name t) t (tools s)\<rparr>)"

record tool_info =
  info_name :: string
  info_description :: string
  info_inputSchema :: json

text \<open>The body of the list-tools answer: \<open>Array.from(this.tools.values()).map(...)\<close>.\<close>

definition listTools :: "('m, 'r, 'w) server \<Rightarrow> tool_info list" where
  "listTools s =
     map (\<lambda>t. \<lparr>info_name = name t, info_description = description t,
                info_inputSchema = jsonSchema (inputSchema t)\<rparr>)
         (map snd (tools s))"


section \<open>The call-tool handler\<close>

record tool_result =
  meta_toolName :: string
  meta_timestamp :: string
  meta_success :: bool
  content :: json

text \<open>One line of the validation report: the issue path joined by dots, then the
  message; the prefix is left out when the joined path is the empty string.\<close>

definition format_issue :: "zod_issue \<Rightarrow> string" where
  "format_issue e =
     (let path = join ''.'' (map seg_string (issue_path e));
          message = issue_message e
      in (if path \<noteq> [] then path @ '': '' else []) @ message)"

definition formattedErrors :: "zod_issue list \<Rightarrow> string" where
  "formattedErrors errors = join newline (map format_issue errors)"

text \<open>The \<open>catch\<close> block of the call-tool handler: what is thrown on for each caught
  error.\<close>

fun catch_block :: "thrown \<Rightarrow> thrown" where
  "catch_block (ThrownZodError errors) =
     ThrownMcpError (McpError InvalidParams
       (''Invalid arguments:'' @ newline @ formattedErrors errors))"
| "catch_block (ThrownMcpError e) = ThrownMcpError e"
| "catch_block (ThrownError msg) =
     ThrownMcpError (McpError InternalError (''Tool execution failed: '' @ msg))"
| "catch_block (ThrownValue str) =
     ThrownMcpError (McpError InternalError (''Tool execution failed: '' @ str))"

text \<open>The \<open>try\<close> block: parse the arguments, run the handler, build the answer. \<open>now\<close>
  is \<open>new Date().toISOString()\<close>.\<close>

definition try_block ::
  "string \<Rightarrow> string \<Rightarrow> 'w tool \<Rightarrow> json option \<Rightarrow> ('m, 'r, 'w) server
     \<Rightarrow> (thrown + tool_result) \<times> ('m, 'r, 'w) server" where
  "try_block now n t args s =
     (let s1 = s\<lparr>calls := calls s @ [CallParse n]\<rparr> in
      case parse (inputSchema t) args of
        Inl e \<Rightarrow> (Inl e, s1)
      | Inr validatedArgs \<Rightarrow>
          (let s2 = s1\<lparr>calls := calls s1 @ [CallHandler n]\<rparr>;
               r = handler t validatedArgs (world s2);
               s3 = s2\<lparr>world := snd r\<rparr>
           in case fst r of
                Inl e \<Rightarrow> (Inl e, s3)
              | Inr result_content \<Rightarrow>
                  (Inr \<lparr>meta_toolName = n, meta_timestamp = now, meta_success = True,
                        content = result_content\<rparr>, s3)))"

definition call_tool_handler ::
  "('m, 'r) security \<Rightarrow> string \<Rightarrow> request \<Rightarrow> ('m, 'r, 'w) server
     \<Rightarrow> (thrown + tool_result) \<times> ('m, 'r, 'w) server" where
  "call_tool_handler sec now req s =
     (case validateRequest sec req s of
        (Inl e, s1) \<Rightarrow> (Inl e, s1)
      | (Inr u, s1) \<Rightarrow>
          if \<not> truthy (params req) \<or> typeof (params req) \<noteq> ''object''
          then (Inl (ThrownMcpError (McpError InvalidParams ''Invalid request parameters'')), s1)
          else
            (let nm = get_prop (params req) ''name'';
                 args = get_prop (params req) ''arguments''
             in if \<not> truthy nm \<or> typeof nm \<noteq> ''string''
                then (Inl (ThrownMcpError (McpError InvalidParams ''Missing or invalid tool name'')), s1)
                else
                  (case nm of
                     Some (JStr n) \<Rightarrow>
                       (case map_of (tools s1) n of
                          None \<Rightarrow>
                            (Inl (ThrownMcpError (McpError MethodNotFound (''Unknown tool: '' @ n))), s1)
                        | Some t \<Rightarrow>
                            (case try_block now n t args s1 of
                               (Inl e, s2) \<Rightarrow> (Inl (catch_block e), s2)
                             | (Inr res, s2) \<Rightarrow> (Inr res, s2)))
                   | _ \<Rightarrow>
                       (Inl (ThrownMcpError (McpError InvalidParams ''Missing or invalid tool name'')), s1))))"

section \<open>The prompt and resource handlers\<close>







section \<open>The HTTP request handler of \<open>ObsidianServer.start\<close>\<close>

text \<open>
  An incoming request as the handler reads it: the method, and the path name of
  \<open>new URL(req.url, base)\<close> as the platform's URL parser gives it; \<open>None\<close> when
  \<open>req.url\<close> is empty or absent (\<open>url\<close> is then \<open>null\<close>).
\<close>

record http_request =
  http_method :: string
  pathname :: "string option"

record http_response =
  status :: nat
  headers :: "(string \<times> string) list"
  body :: string

text \<open>
  \<open>transport.handleRequest\<close> belongs to the protocol library. It answers the request
  itself, or throws; when it throws, \<open>res.headersSent\<close> tells whether an answer had
  already been started.
\<close>

datatype transport_outcome =
    Answered http_response
  | ThrewBeforeHeaders
  | ThrewAfterHeaders http_response

record http_config =
  host :: string
  port :: nat
  path :: string

definition not_found :: http_response where
  "not_found = \<lparr>status = 404, headers = [], body = ''Not Found''\<rparr>"

definition http_request_handler ::
  "http_config \<Rightarrow> (http_request \<Rightarrow> transport_outcome) \<Rightarrow> http_request \<Rightarrow> http_response" where
  "http_request_handler config handleRequest req =
     (if pathname req = None \<or> pathname req \<noteq> Some (path config) then not_found
      else if http_method req = ''OPTIONS''
      then \<lparr>status = 204, headers = [(''Allow'', ''GET,POST,DELETE,OPTIONS'')], body = []\<rparr>
      else
        (case handleRequest req of
           Answered res \<Rightarrow> res
         | ThrewBeforeHeaders \<Rightarrow>
             \<lparr>status = 500, headers = [], body = ''Internal Server Error''\<rparr>
         | ThrewAfterHeaders res \<Rightarrow> res))"

section \<open>Start-up: vault path validation in \<open>main\<close>\<close>

text \<open>The \<open>code\<close> of a rejected file-system call, with the message for other codes.\<close>

datatype fs_error = ENOENT | EACCES | EOTHER string

datatype access_mode = R_OK | RW_OK

text \<open>
  The platform and the helpers of \<open>utils/path.ts\<close> (not part of the sources at hand)
  that \<open>main\<close> uses, as parameters:
  \<^item> \<open>absolutePathOf\<close>: home expansion, \<open>path.normalize\<close>, removal of trailing
    separators and \<open>path.resolve\<close>, applied to a vault argument;
  \<^item> \<open>stat\<close>: \<open>fs.stat\<close>, giving \<open>isDirectory()\<close> or the error;
  \<^item> \<open>access\<close>: \<open>fs.access\<close>;
  \<^item> the path checks return a reason (\<open>Some\<close>) or nothing; \<open>checkPathOverlap\<close>
    throws an \<open>McpError\<close>, given here by its message.
\<close>

record environment =
  absolutePathOf :: "string \<Rightarrow> string"
  isAbsolute :: "string \<Rightarrow> bool"
  basename :: "string \<Rightarrow> string"
  stat :: "string \<Rightarrow> fs_error + bool"
  access :: "string \<Rightarrow> access_mode \<Rightarrow> fs_error option"
  checkPathCharacters :: "string \<Rightarrow> string option"
  checkLocalPath :: "string \<Rightarrow> string option"
  checkSuspiciousPath :: "string \<Rightarrow> string option"
  sanitizeVaultName :: "string \<Rightarrow> string"
  checkPathOverlap :: "string list \<Rightarrow> string option"

text \<open>
  The fatal start-up errors of \<open>main\<close>, one constructor per message that it writes
  before \<open>process.exit(1)\<close>; the arguments are the values spliced into the message.
\<close>

datatype cli_error =
    NoVaultPathsProvided
  | VaultPathMustBeAbsolute string
  | InvalidVaultPathLocal string string
  | InvalidVaultPathSuspicious string string
  | VaultPathMustBeDirectory string
  | ObsidianFolderNotDirectory string
  | NotAValidObsidianVault string
  | ErrorCheckingConfiguration string fs_error
  | VaultDirectoryDoesNotExist string
  | NoPermissionToAccess string
  | ErrorAccessingVaultPath string fs_error
  | TooManyVaults nat
  | NoValidVaultPaths
  | OverlappingVaults string

text \<open>The \<open>code\<close> field of the JSON-RPC error written with each of them.\<close>

fun exit_code :: "cli_error \<Rightarrow> error_code" where
  "exit_code (ErrorCheckingConfiguration p e) = InternalError"
| "exit_code e = InvalidRequest"

definition MAX_VAULTS :: nat where
  "MAX_VAULTS = 10"

text \<open>\<open>path.join(dir, segment)\<close> on a POSIX host, for a normalised \<open>dir\<close>.\<close>

definition path_join :: "string \<Rightarrow> string \<Rightarrow> string" where
  "path_join dir seg = (if dir \<noteq> [] \<and> last dir = CHR ''/'' then dir @ seg else dir @ ''/'' @ seg)"

text \<open>The \<open>catch\<close> around the checks of the \<open>.obsidian\<close> folder.\<close>

fun config_catch :: "string \<Rightarrow> fs_error \<Rightarrow> cli_error" where
  "config_catch vaultPath ENOENT = NotAValidObsidianVault vaultPath"
| "config_catch vaultPath e = ErrorCheckingConfiguration vaultPath e"

text \<open>The \<open>catch\<close> around the checks of the vault directory.\<close>

fun directory_catch :: "string \<Rightarrow> fs_error \<Rightarrow> cli_error" where
  "directory_catch vaultPath ENOENT = VaultDirectoryDoesNotExist vaultPath"
| "directory_catch vaultPath EACCES = NoPermissionToAccess vaultPath"
| "directory_catch vaultPath e = ErrorAccessingVaultPath vaultPath e"

definition check_obsidian_config :: "environment \<Rightarrow> string \<Rightarrow> string \<Rightarrow> cli_error + string" where
  "check_obsidian_config env vaultPath absolutePath =
     (let obsidianConfigPath = path_join absolutePath ''.obsidian'';
          obsidianAppConfigPath = path_join obsidianConfigPath ''app.json''
      in case stat env obsidianConfigPath of
           Inl e \<Rightarrow> Inl (config_catch vaultPath e)
         | Inr isDirectory \<Rightarrow>
             if \<not> isDirectory then Inl (ObsidianFolderNotDirectory vaultPath)
             else (case access env obsidianAppConfigPath R_OK of
                     Some e \<Rightarrow> Inl (config_catch vaultPath e)
                   | None \<Rightarrow> Inr absolutePath))"

definition check_directory :: "environment \<Rightarrow> string \<Rightarrow> string \<Rightarrow> cli_error + string" where
  "check_directory env vaultPath absolutePath =
     (case stat env absolutePath of
        Inl e \<Rightarrow> Inl (directory_catch vaultPath e)
      | Inr isDirectory \<Rightarrow>
          if \<not> isDirectory then Inl (VaultPathMustBeDirectory vaultPath)
          else (case access env absolutePath RW_OK of
                  Some e \<Rightarrow> Inl (directory_catch vaultPath e)
                | None \<Rightarrow> check_obsidian_config env vaultPath absolutePath))"

text \<open>
  The callback that \<open>main\<close> maps over the vault arguments: the absolute path of an
  accepted argument, or the error with which the process exits. Both path checks are
  started together; the local-filesystem result is looked at first.
\<close>

definition validate_vault_path :: "environment \<Rightarrow> string \<Rightarrow> cli_error + string" where
  "validate_vault_path env vaultPath =
     (let absolutePath = absolutePathOf env vaultPath
      in if \<not> isAbsolute env absolutePath then Inl (VaultPathMustBeAbsolute vaultPath)
         else
           (let suspiciousReason = checkSuspiciousPath env absolutePath;
                localPathIssue = checkLocalPath env absolutePath
            in case localPathIssue of
                 Some issue \<Rightarrow> Inl (InvalidVaultPathLocal issue vaultPath)
               | None \<Rightarrow>
                   (case suspiciousReason of
                      Some reason \<Rightarrow> Inl (InvalidVaultPathSuspicious reason vaultPath)
                    | None \<Rightarrow> check_directory env vaultPath absolutePath)))"

fun lefts :: "('a + 'b) list \<Rightarrow> 'a list" where
  "lefts [] = []"
| "lefts (Inl a # xs) = a # lefts xs"
| "lefts (Inr b # xs) = lefts xs"

fun rights :: "('a + 'b) list \<Rightarrow> 'b list" where
  "rights [] = []"
| "rights (Inl a # xs) = rights xs"
| "rights (Inr b # xs) = b # rights xs"

text \<open>
  \<open>Promise.all(vaultArgs.map(...))\<close>: the callbacks run interleaved and each one ends the
  process when its path fails. The result is the list of absolute paths when every
  argument passes; otherwise the process has exited with the error of one of the failing
  arguments (which one depends on the scheduling), and the result lists them in argument
  order.
\<close>

definition normalizedPaths :: "environment \<Rightarrow> string list \<Rightarrow> cli_error list + string list" where
  "normalizedPaths env vaultArgs =
     (let results = map (validate_vault_path env) vaultArgs
      in if lefts results = [] then Inr (rights results) else Inl (lefts results))"

section \<open>Vault names: the disambiguation loop of \<open>main\<close>\<close>

datatype VaultConfig = VaultConfig (vault_name: string) (vault_path: string)

text \<open>The template \<open>`${vault.name}-${counter}`\<close>.\<close>

definition suffixed :: "string \<Rightarrow> nat \<Rightarrow> string" where
  "suffixed base counter = base @ ''-'' @ show_nat counter"

text \<open>Decimal rendering is injective; the loop below terminates because of it.\<close>

lemma digit_char_inj:
  assumes "a < 10" and "b < 10" and "digit_char a = digit_char b"
  shows "a = b"
proof -
  have "of_char (char_of (48 + a) :: char) = (of_char (char_of (48 + b) :: char) :: nat)"
    using assms(3) by (simp add: digit_char_def)
  then have "(48 + a) mod 256 = (48 + b) mod 256"
    by (simp only: of_char_of)
  then show "a = b" using assms(1,2) by simp
qed

lemma show_nat_nonempty: "show_nat n \<noteq> []"
  by (subst show_nat.simps) simp

lemma show_nat_inj: "show_nat n = show_nat m \<Longrightarrow> n = m"
proof (induction n arbitrary: m rule: show_nat.induct)
  case (1 n)
  show ?case
  proof (cases "n < 10")
    case True
    then have n: "show_nat n = [digit_char n]" by (subst show_nat.simps) simp
    show ?thesis
    proof (cases "m < 10")
      case True
      then have "show_nat m = [digit_char m]" by (subst show_nat.simps) simp
      with n "1.prems" have "digit_char n = digit_char m" by simp
      then show ?thesis using \<open>n < 10\<close> \<open>m < 10\<close> digit_char_inj by blast
    next
      case False
      then have "show_nat m = show_nat (m div 10) @ [digit_char (m mod 10)]"
        by (subst show_nat.simps) simp
      with n "1.prems" have "show_nat (m div 10) = []" by simp
      then show ?thesis using show_nat_nonempty by blast
    qed
  next
    case False
    then have n: "show_nat n = show_nat (n div 10) @ [digit_char (n mod 10)]"
      by (subst show_nat.simps) simp
    show ?thesis
    proof (cases "m < 10")
      case True
      then have "show_nat m = [digit_char m]" by (subst show_nat.simps) simp
      with n "1.prems" have "show_nat (n div 10) = []" by simp
      then show ?thesis using show_nat_nonempty by blast
    next
      case m: False
      then have "show_nat m = show_nat (m div 10) @ [digit_char (m mod 10)]"
        by (subst show_nat.simps) simp
      with n "1.prems" have e1: "show_nat (n div 10) = show_nat (m div 10)"
        and e2: "digit_char (n mod 10) = digit_char (m mod 10)" by simp_all
      have "n div 10 = m div 10" using "1.IH" [OF False e1] .
      moreover have "n mod 10 = m mod 10"
        using e2 digit_char_inj [of "n mod 10" "m mod 10"] by simp
      ultimately show ?thesis by (metis div_mult_mod_eq)
    qed
  qed
qed

lemma suffixed_inj: "suffixed base i = suffixed base j \<Longrightarrow> i = j"
  by (simp add: suffixed_def show_nat_inj)

text \<open>
  \<open>while (usedNames.has(uniqueName)) { uniqueName = `${vault.name}-${counter}`; counter++; }\<close>
  with \<open>usedNames\<close> (a \<open>Set\<close>, only ever asked for membership) as the list of its
  elements. The counter is a JavaScript number; it stays far below the range where
  increments stop being exact.
\<close>

function while_used :: "string list \<Rightarrow> string \<Rightarrow> string \<Rightarrow> nat \<Rightarrow> string" where
  "while_used usedNames base uniqueName counter =
     (if uniqueName \<in> set usedNames
      then while_used usedNames base (suffixed base counter) (counter + 1)
      else uniqueName)"
  by pat_completeness auto
termination
proof (relation "measure (\<lambda>(usedNames, base, uniqueName, counter).
          2 * length (filter (\<lambda>u. \<exists>k\<ge>counter. u = suffixed base k) usedNames)
          + (if uniqueName \<in> set usedNames then 1 else 0))")
  show "wf (measure (\<lambda>(usedNames, base, uniqueName, counter).
          2 * length (filter (\<lambda>u. \<exists>k\<ge>counter. u = suffixed base k) usedNames)
          + (if uniqueName \<in> set usedNames then 1 else 0)))"
    by simp
next
  fix usedNames :: "string list" and base uniqueName :: string and counter :: nat
  assume u: "uniqueName \<in> set usedNames"
  let ?P = "\<lambda>c u. \<exists>k\<ge>c. u = suffixed base k"
  have weaken: "?P counter x" if "?P (counter + 1) x" for x
  proof -
    from that obtain k where "counter + 1 \<le> k" and "x = suffixed base k" by blast
    then have "counter \<le> k" by simp
    with \<open>x = suffixed base k\<close> show ?thesis by blast
  qed
  have sub: "filter (?P (counter + 1)) usedNames
               = filter (?P (counter + 1)) (filter (?P counter) usedNames)"
    unfolding filter_filter by (rule filter_cong) (use weaken in blast)+
  have le: "length (filter (?P (counter + 1)) usedNames) \<le> length (filter (?P counter) usedNames)"
    by (subst sub) (rule length_filter_le)
  show "((usedNames, base, suffixed base counter, counter + 1), (usedNames, base, uniqueName, counter))
          \<in> measure (\<lambda>(usedNames, base, uniqueName, counter).
          2 * length (filter (\<lambda>u. \<exists>k\<ge>counter. u = suffixed base k) usedNames)
          + (if uniqueName \<in> set usedNames then 1 else 0))"
  proof (cases "suffixed base counter \<in> set usedNames")
    case False
    then show ?thesis using u le by simp
  next
    case True
    then have "suffixed base counter \<in> set (filter (?P counter) usedNames)" by auto
    moreover have "\<not> ?P (counter + 1) (suffixed base counter)"
      using suffixed_inj by fastforce
    ultimately have "length (filter (?P (counter + 1)) (filter (?P counter) usedNames))
        < length (filter (?P counter) usedNames)"
      by (rule length_filter_less)
    then show ?thesis using u True sub by simp
  qed
qed

text \<open>The body of the \<open>forEach\<close> callback up to \<open>usedNames.add\<close>: the name a vault gets.\<close>

definition unique_name :: "string list \<Rightarrow> string \<Rightarrow> string" where
  "unique_name usedNames vaultName =
     (if vaultName \<in> set usedNames then while_used usedNames vaultName vaultName 1
      else vaultName)"

text \<open>One round of \<open>vaults.forEach\<close> on the pair \<open>(uniqueVaults, usedNames)\<close>.\<close>

definition forEach_step ::
  "VaultConfig \<Rightarrow> VaultConfig list \<times> string list \<Rightarrow> VaultConfig list \<times> string list" where
  "forEach_step vault acc =
     (let uniqueName = unique_name (snd acc) (vault_name vault)
      in (fst acc @ [VaultConfig uniqueName (vault_path vault)], uniqueName # snd acc))"

definition uniqueVaults :: "VaultConfig list \<Rightarrow> VaultConfig list" where
  "uniqueVaults vaults = fst (fold forEach_step vaults ([], []))"

text \<open>The set \<open>usedNames\<close> when the loop has finished, for stating what it holds.\<close>

definition usedNames_after :: "VaultConfig list \<Rightarrow> string list" where
  "usedNames_after vaults = snd (fold forEach_step vaults ([], []))"

text \<open>\<open>normalizedPaths.map(...)\<close>: the name of a vault before disambiguation.\<close>

definition vaults_of :: "environment \<Rightarrow> string list \<Rightarrow> VaultConfig list" where
  "vaults_of env paths =
     map (\<lambda>vaultPath. VaultConfig (sanitizeVaultName env (basename env vaultPath)) vaultPath) paths"

section \<open>\<open>main\<close>, from the vault arguments to the vault configuration\<close>

text \<open>
  \<open>main\<close> after the command line is split into options and vault arguments, up to the
  list handed to \<open>new ObsidianServer(uniqueVaults)\<close>. \<open>Exit errors\<close>: the process has
  written one of \<open>errors\<close> and exited with status 1.
\<close>

datatype main_result = Exit "cli_error list" | Configured "VaultConfig list"

definition main :: "environment \<Rightarrow> string list \<Rightarrow> main_result" where
  "main env vaultArgs =
     (if length vaultArgs = 0 then Exit [NoVaultPathsProvided]
      else
        (case normalizedPaths env vaultArgs of
           Inl errors \<Rightarrow> Exit errors
         | Inr paths \<Rightarrow>
             if length vaultArgs > MAX_VAULTS then Exit [TooManyVaults (length vaultArgs)]
             else if length paths = 0 then Exit [NoValidVaultPaths]
             else
               (case checkPathOverlap env paths of
                  Some msg \<Rightarrow> Exit [OverlappingVaults msg]
                | None \<Rightarrow> Configured (uniqueVaults (vaults_of env paths)))))"

section \<open>The path checks of \<open>utils/path.ts\<close>, from their specification\<close>









section \<open>Concrete servers, tools and hosts\<close>

text \<open>A monitor that counts its updates and a limiter that admits two calls.\<close>

definition example_security :: "(nat, nat) security" where
  "example_security =
     \<lparr>validateMessageSize =
        (\<lambda>r. if 16 < length (request_method r)
              then Some (ThrownMcpError (McpError InvalidRequest ''Message too large''))
              else None),
      updateActivity = Suc,
      checkLimit = (\<lambda>key n. (n < 2, Suc n))\<rparr>"

definition example_server :: "(string \<times> nat tool) list \<Rightarrow> nat \<Rightarrow> (nat, nat, nat) server" where
  "example_server ts used =
     \<lparr>tools = ts, vault_map = [(''test'', ''/v/test'')], connectionMonitor = 0, rateLimiter = used,
      world = 0, calls = []\<rparr>"

text \<open>The schema \<open>z.object({ message: z.string() })\<close> of the repository's test tool.\<close>

definition echo_schema :: schema where
  "echo_schema =
     \<lparr>parse =
        (\<lambda>args. case get_prop args ''message'' of
                  Some (JStr m) \<Rightarrow> Inr (JStr m)
                | Some v \<Rightarrow> Inl (ThrownZodError
                     [ZodIssue [Key ''message''] ''Expected string, received number''])
                | None \<Rightarrow> Inl (ThrownZodError [ZodIssue [Key ''message''] ''Required''])),
      jsonSchema = JObj [(''type'', JStr ''object'')]\<rparr>"

text \<open>The test tool \<open>echo\<close>; the world counts the handler runs.\<close>

definition echo_tool :: "nat tool" where
  "echo_tool =
     \<lparr>name = ''echo'', description = ''Echo back provided text'', inputSchema = echo_schema,
      handler = (\<lambda>v w. (Inr (JArr [JObj [(''type'', JStr ''text''), (''text'', v)]]), Suc w))\<rparr>"

text \<open>A second tool registered under the same name, whose handler throws \<open>e\<close>.\<close>

definition failing_tool :: "thrown \<Rightarrow> nat tool" where
  "failing_tool e =
     \<lparr>name = ''echo'', description = ''Always fails'', inputSchema = echo_schema,
      handler = (\<lambda>v w. (Inl e, Suc w))\<rparr>"

definition call_request :: "string \<Rightarrow> json \<Rightarrow> request" where
  "call_request n args =
     \<lparr>request_method = ''tools/call'', params = Some (JObj [(''name'', JStr n), (''arguments'', args)])\<rparr>"

text \<open>The registry invariant: keys are unique and each key is the name of its tool.\<close>

definition registry_ok :: "(string \<times> 'w tool) list \<Rightarrow> bool" where
  "registry_ok kvs \<longleftrightarrow> distinct (map fst kvs) \<and> list_all (\<lambda>kt. name (snd kt) = fst kt) kvs"

definition mcp_config :: http_config where
  "mcp_config = \<lparr>host = ''127.0.0.1'', port = 0, path = ''/mcp''\<rparr>"

text \<open>
  A POSIX host on which exactly the listed directories are initialised vaults (each with
  \<open>.obsidian/app.json\<close>), no path is remote or suspicious and no two vaults overlap; the
  character check reports control characters.
\<close>

definition vault_directories :: "string list \<Rightarrow> string list" where
  "vault_directories vs = vs @ map (\<lambda>v. v @ ''/.obsidian'') vs"

definition vault_files :: "string list \<Rightarrow> string list" where
  "vault_files vs = map (\<lambda>v. v @ ''/.obsidian/app.json'') vs"

definition example_env :: "string list \<Rightarrow> environment" where
  "example_env vs =
     \<lparr>absolutePathOf = (\<lambda>p. p),
      isAbsolute = (\<lambda>p. take 1 p = ''/''),
      basename = (\<lambda>p. rev (takeWhile (\<lambda>c. c \<noteq> CHR ''/'') (rev p))),
      stat = (\<lambda>p. if p \<in> set (vault_directories vs) then Inr True
                   else if p \<in> set (vault_files vs) then Inr False
                   else Inl ENOENT),
      access = (\<lambda>p m. if p \<in> set (vault_directories vs) \<or> p \<in> set (vault_files vs)
                     then None else Some ENOENT),
      checkPathCharacters =
        (\<lambda>p. if list_ex (\<lambda>c. (of_char c :: nat) < 32) p
              then Some ''Contains invalid characters'' else None),
      checkLocalPath = (\<lambda>p. None),
      checkSuspiciousPath = (\<lambda>p. None),
      sanitizeVaultName = (\<lambda>n. n),
      checkPathOverlap = (\<lambda>ps. None)\<rparr>"

definition ten_vaults :: "string list" where
  "ten_vaults = [''/v/a'', ''/v/b'', ''/v/c'', ''/v/d'', ''/v/e'',
                 ''/v/f'', ''/v/g'', ''/v/h'', ''/v/i'', ''/v/j'']"



text \<open>A schema that reports three issues unless \<open>mode\<close> is given.\<close>

definition order_schema :: schema where
  "order_schema =
     \<lparr>parse =
        (\<lambda>args. case get_prop args ''mode'' of
                  Some v \<Rightarrow> Inr v
                | None \<Rightarrow> Inl (ThrownZodError
                     [ZodIssue [Key ''items'', Index 12, Key ''title''] ''Required'',
                      ZodIssue [Key ''mode''] ''Invalid enum value'',
                      ZodIssue [] ''Unrecognized key''])),
      jsonSchema = JObj [(''type'', JStr ''object'')]\<rparr>"

text \<open>A schema handler that rejects with a plain \<open>Error\<close>.\<close>

definition plain_schema :: schema where
  "plain_schema =
     \<lparr>parse =
        (\<lambda>args. case get_prop args ''message'' of
                  Some (JStr m) \<Rightarrow> Inr (JStr m)
                | _ \<Rightarrow> Inl (ThrownError ''message must be a string'')),
      jsonSchema = JObj [(''type'', JStr ''object'')]\<rparr>"

text \<open>The test tool \<open>echo\<close> with another schema.\<close>

definition echo_tool_with :: "schema \<Rightarrow> nat tool" where
  "echo_tool_with sch = echo_tool\<lparr>inputSchema := sch\<rparr>"


text \<open>
  Four directories in different parents whose last segments sanitize to \<open>a\<close>, \<open>a\<close>,
  \<open>a-1\<close> and \<open>a-1\<close>, as \<open>vaults\<close> holds them before disambiguation.
\<close>

definition colliding_vaults :: "VaultConfig list" where
  "colliding_vaults = [VaultConfig ''a'' ''/w/a'', VaultConfig ''a'' ''/x/a'',
                       VaultConfig ''a-1'' ''/y/a-1'', VaultConfig ''a-1'' ''/z/a-1'']"

section \<open>Properties of admission control\<close>

lemma tools_validateRequest: "tools (snd (validateRequest sec req s)) = tools s"
  by (simp add: validateRequest_def Let_def split: option.splits)

lemma world_validateRequest: "world (snd (validateRequest sec req s)) = world s"
  by (simp add: validateRequest_def Let_def split: option.splits)

lemma calls_validateRequest_ok:
  "validateRequest sec req s = (Inr u, s1) \<Longrightarrow>
     calls s1 = calls s @ [CallValidateMessageSize, CallUpdateActivity, CallCheckLimit (request_method req)]"
  by (auto simp add: validateRequest_def Let_def split: option.splits if_splits)




text \<open>
  C10. When the message-size guard passes, the activity clock is updated whatever the
  rate limiter answers afterwards; when the guard fails, the clock keeps its value and
  the guard is the only collaborator that was called.
\<close>

theorem activity_clock_update:
  "(validateMessageSize sec req = None \<longrightarrow>
      connectionMonitor (snd (validateRequest sec req s)) = updateActivity sec (connectionMonitor s)
      \<and> CallUpdateActivity \<in> set (drop (length (calls s)) (calls (snd (validateRequest sec req s)))))
   \<and> (validateMessageSize sec req \<noteq> None \<longrightarrow>
      connectionMonitor (snd (validateRequest sec req s)) = connectionMonitor s
      \<and> calls (snd (validateRequest sec req s)) = calls s @ [CallValidateMessageSize])"
  by (auto simp add: validateRequest_def Let_def split: option.splits)

theorem activity_clock_update_witness:
  "connectionMonitor (snd (validateRequest example_security (call_request ''echo'' JNull) (example_server [] 2))) = Suc 0
   \<and> fst (validateRequest example_security (call_request ''echo'' JNull) (example_server [] 2)) = Inl rate_limit_error
   \<and> connectionMonitor (snd (validateRequest example_security
        \<lparr>request_method = ''a-very-long-method-name'', params = None\<rparr> (example_server [] 0))) = 0"
proof -
  let ?req = "call_request ''echo'' JNull"
  let ?s = "example_server [] 2 :: (nat, nat, nat) server"
  let ?big = "\<lparr>request_method = ''a-very-long-method-name'', params = None\<rparr>"
  let ?fresh = "example_server [] 0 :: (nat, nat, nat) server"
  have size: "validateMessageSize example_security ?req = None"
    by (simp add: example_security_def call_request_def)
  have big: "validateMessageSize example_security ?big \<noteq> None"
    by (simp add: example_security_def)
  have a: "connectionMonitor (snd (validateRequest example_security ?req ?s)) = Suc 0"
    using activity_clock_update [of example_security ?req ?s] size
    by (simp add: example_security_def example_server_def)
  have b: "connectionMonitor (snd (validateRequest example_security ?big ?fresh)) = 0"
    using activity_clock_update [of example_security ?big ?fresh] big
    by (simp add: example_server_def)
  have c: "fst (validateRequest example_security ?req ?s) = Inl rate_limit_error"
    by (simp add: validateRequest_def Let_def example_security_def example_server_def call_request_def)
  show ?thesis using a b c by simp
qed

section \<open>Properties of the tool registry\<close>

lemma map_set_keys_present:
  "k \<in> fst ` set kvs \<Longrightarrow> map fst (map_set k v kvs) = map fst kvs"
  by (induction kvs) (auto simp add: rev_image_eqI)

lemma map_set_keys_absent:
  "k \<notin> fst ` set kvs \<Longrightarrow> map fst (map_set k v kvs) = map fst kvs @ [k]"
  by (induction kvs) auto

lemma map_of_map_set: "map_of (map_set k v kvs) k = Some v"
  by (induction kvs) auto

lemma map_of_map_set_other: "k' \<noteq> k \<Longrightarrow> map_of (map_set k v kvs) k' = map_of kvs k'"
  by (induction kvs) auto

lemma set_map_set: "set (map_set k v kvs) \<subseteq> insert (k, v) (set kvs)"
  by (induction kvs) (auto split: if_splits)

lemma registry_ok_empty: "registry_ok []"
  by (simp add: registry_ok_def)

lemma registry_ok_map_set:
  assumes "registry_ok kvs"
  shows "registry_ok (map_set (name t) t kvs)"
proof -
  have d: "distinct (map fst (map_set (name t) t kvs))"
  proof (cases "name t \<in> fst ` set kvs")
    case True
    then show ?thesis using assms by (simp add: map_set_keys_present registry_ok_def)
  next
    case False
    then show ?thesis using assms by (simp add: map_set_keys_absent registry_ok_def)
  qed
  have "\<forall>kt \<in> set (map_set (name t) t kvs). name (snd kt) = fst kt"
    using assms set_map_set [of "name t" t kvs]
    by (auto simp add: registry_ok_def list_all_iff)
  with d show ?thesis by (simp add: registry_ok_def list_all_iff)
qed

lemma registry_ok_names:
  "registry_ok (tools s) \<Longrightarrow> map info_name (listTools s) = map fst (tools s)"
  by (simp add: listTools_def registry_ok_def list_all_iff)

text \<open>
  C1 (as the code has it). For every registry that satisfies the registry invariant and
  every tool descriptor whose name is already present, \<open>registerTool\<close> does not fail:
  it stores the new descriptor under the existing key, in the same position, so that a
  lookup of the name yields the new descriptor and its handler. The invariant is kept
  and \<open>listTools\<close> reports the same names as before, none of them twice.
\<close>

theorem registerTool_replaces:
  assumes "registry_ok (tools s)" and "name t \<in> fst ` set (tools s)"
  shows "\<exists>s'. registerTool t s = Inr s'
           \<and> map_of (tools s') (name t) = Some t
           \<and> registry_ok (tools s')
           \<and> map info_name (listTools s') = map info_name (listTools s)
           \<and> distinct (map info_name (listTools s'))"
proof -
  let ?s' = "s\<lparr>tools := map_set (name t) t (tools s)\<rparr>"
  have ok: "registry_ok (tools ?s')"
    using registry_ok_map_set [OF assms(1)] by simp
  have names: "map info_name (listTools ?s') = map info_name (listTools s)"
    using registry_ok_names [OF ok] registry_ok_names [OF assms(1)] assms(2)
    by (simp add: map_set_keys_present)
  have "distinct (map info_name (listTools ?s'))"
    using registry_ok_names [OF ok] ok by (simp add: registry_ok_def)
  with ok names show ?thesis
    by (simp add: registerTool_def map_of_map_set)
qed

theorem registerTool_replaces_witness:
  "\<exists>s'. registerTool (failing_tool (ThrownError ''boom'')) (example_server [(''echo'', echo_tool)] 0) = Inr s'
       \<and> map_of (tools s') ''echo'' = Some (failing_tool (ThrownError ''boom''))
       \<and> map info_name (listTools s') = [''echo'']"
proof -
  let ?s = "example_server [(''echo'', echo_tool)] 0"
  let ?t = "failing_tool (ThrownError ''boom'')"
  have h1: "registry_ok (tools ?s)"
    by (simp add: registry_ok_def example_server_def echo_tool_def)
  have h2: "name ?t \<in> fst ` set (tools ?s)"
    by (simp add: example_server_def failing_tool_def)
  have n: "name ?t = ''echo''" by (simp add: failing_tool_def)
  have l: "map info_name (listTools ?s) = [''echo'']"
    by (simp add: listTools_def example_server_def echo_tool_def)
  show ?thesis
    using registerTool_replaces [OF h1 h2] n l by auto
qed

text \<open>
  Against C1 as stated: registering a second descriptor named \<open>echo\<close> succeeds, and the
  registry then holds the second descriptor, whose handler answers differently from the
  first one's.
\<close>

theorem registerTool_duplicate_counterexample:
  "registerTool (failing_tool (ThrownError ''boom'')) (example_server [(''echo'', echo_tool)] 0)
     = Inr (example_server [(''echo'', failing_tool (ThrownError ''boom''))] 0)
   \<and> name (failing_tool (ThrownError ''boom'')) = name echo_tool
   \<and> fst (handler (failing_tool (ThrownError ''boom'')) (JStr ''hi'') 0) = Inl (ThrownError ''boom'')
   \<and> fst (handler echo_tool (JStr ''hi'') 0)
       = Inr (JArr [JObj [(''type'', JStr ''text''), (''text'', JStr ''hi'')]])"
  by (simp add: registerTool_def example_server_def failing_tool_def echo_tool_def)

section \<open>Properties of the call-tool handler\<close>

lemma call_tool_handler_reaches_tool:
  assumes adm: "validateRequest sec req s = (Inr u, s1)"
      and par: "params req = Some (JObj kvs)"
      and nm: "map_of kvs ''name'' = Some (JStr n)" "n \<noteq> []"
      and tl: "map_of (tools s) n = Some t"
  shows "call_tool_handler sec now req s =
           (case try_block now n t (map_of kvs ''arguments'') s1 of
              (Inl e, s2) \<Rightarrow> (Inl (catch_block e), s2)
            | (Inr res, s2) \<Rightarrow> (Inr res, s2))"
proof -
  have "tools s1 = tools s"
    using tools_validateRequest [of sec req s] adm by simp
  then show ?thesis
    using adm par nm tl by (simp add: call_tool_handler_def)
qed

lemma join_concat:
  "join sep xs = (case xs of [] \<Rightarrow> [] | x # ys \<Rightarrow> x @ concat (map (\<lambda>y. sep @ y) ys))"
  by (induction sep xs rule: join.induct) simp_all

lemma format_issue_concat:
  "format_issue i =
     (case map seg_string (issue_path i) of
        [] \<Rightarrow> issue_message i
      | p # ps \<Rightarrow>
          (if p @ concat (map (\<lambda>q. ''.'' @ q) ps) = [] then issue_message i
           else p @ concat (map (\<lambda>q. ''.'' @ q) ps) @ '': '' @ issue_message i))"
  by (simp add: format_issue_def Let_def join_concat split: list.splits)

text \<open>
  C6 (as the code has it). When a call-tool request passes admission and names a
  registered tool, and the tool's schema handler rejects the arguments, the handler of
  the tool is not called: after admission the only call is the parse, and the world
  outside the server is unchanged. The call fails, and the error depends on what the
  parse threw. A \<open>ZodError\<close> gives \<open>InvalidParams\<close> with the line ``Invalid arguments:''
  followed by one line per issue, in the order of the issues, each the path segments
  joined by dots, a colon and the issue message (the message alone when the joined path
  is empty). An \<open>McpError\<close> passes through unchanged; any other \<open>Error\<close> or thrown value
  gives \<open>InternalError\<close> with ``Tool execution failed: '' and its text.
\<close>

theorem rejected_arguments_never_reach_handler:
  assumes adm: "validateRequest sec req s = (Inr u, s1)"
      and par: "params req = Some (JObj kvs)"
      and nm: "map_of kvs ''name'' = Some (JStr n)" "n \<noteq> []"
      and tl: "map_of (tools s) n = Some t"
      and bad: "parse (inputSchema t) (map_of kvs ''arguments'') = Inl e"
  shows "call_tool_handler sec now req s =
           (Inl (case e of
                   ThrownZodError errors \<Rightarrow>
                     ThrownMcpError (McpError InvalidParams
                       (''Invalid arguments:'' @ [CHR 0x0A] @
                        (case map (\<lambda>i. case map seg_string (issue_path i) of
                                          [] \<Rightarrow> issue_message i
                                        | p # ps \<Rightarrow>
                                            (if p @ concat (map (\<lambda>q. ''.'' @ q) ps) = []
                                             then issue_message i
                                             else p @ concat (map (\<lambda>q. ''.'' @ q) ps)
                                                    @ '': '' @ issue_message i))
                                  errors of
                           [] \<Rightarrow> []
                         | l # ls \<Rightarrow> l @ concat (map (\<lambda>x. [CHR 0x0A] @ x) ls))))
                 | ThrownMcpError m \<Rightarrow> ThrownMcpError m
                 | ThrownError msg \<Rightarrow>
                     ThrownMcpError (McpError InternalError (''Tool execution failed: '' @ msg))
                 | ThrownValue str \<Rightarrow>
                     ThrownMcpError (McpError InternalError (''Tool execution failed: '' @ str))),
            s1\<lparr>calls := calls s1 @ [CallParse n]\<rparr>)
         \<and> world s1 = world s
         \<and> calls s1 = calls s @ [CallValidateMessageSize, CallUpdateActivity,
                                  CallCheckLimit (request_method req)]"
proof -
  have w: "world s1 = world s"
    using world_validateRequest [of sec req s] adm by simp
  have c: "calls s1 = calls s @ [CallValidateMessageSize, CallUpdateActivity,
                                 CallCheckLimit (request_method req)]"
    using calls_validateRequest_ok [OF adm] .
  have fmt: "map format_issue errors =
               map (\<lambda>i. case map seg_string (issue_path i) of
                           [] \<Rightarrow> issue_message i
                         | p # ps \<Rightarrow>
                             (if p @ concat (map (\<lambda>q. ''.'' @ q) ps) = []
                              then issue_message i
                              else p @ concat (map (\<lambda>q. ''.'' @ q) ps)
                                     @ '': '' @ issue_message i)) errors" for errors
    by (rule map_cong [OF refl]) (rule format_issue_concat)
  have rep: "catch_block (ThrownZodError errors) =
               ThrownMcpError (McpError InvalidParams
                 (''Invalid arguments:'' @ [CHR 0x0A] @
                  (case map format_issue errors of
                     [] \<Rightarrow> []
                   | l # ls \<Rightarrow> l @ concat (map (\<lambda>x. [CHR 0x0A] @ x) ls))))" for errors
    by (simp add: formattedErrors_def newline_def join_concat)
  have res: "call_tool_handler sec now req s = (Inl (catch_block e), s1\<lparr>calls := calls s1 @ [CallParse n]\<rparr>)"
    using call_tool_handler_reaches_tool [OF adm par nm tl, of now] bad
    by (simp add: try_block_def)
  show ?thesis
  proof (cases e)
    case (ThrownZodError errors)
    then show ?thesis using res w c rep [of errors] fmt [of errors] by simp
  next
    case (ThrownMcpError m)
    then show ?thesis using res w c by simp
  next
    case (ThrownError msg)
    then show ?thesis using res w c by simp
  next
    case (ThrownValue str)
    then show ?thesis using res w c by simp
  qed
qed

theorem rejected_arguments_never_reach_handler_witness:
  "fst (call_tool_handler example_security ''T'' (call_request ''echo'' (JObj []))
          (example_server [(''echo'', echo_tool_with order_schema)] 0))
     = Inl (ThrownMcpError (McpError InvalidParams
         (''Invalid arguments:'' @ [CHR 0x0A] @ ''items.12.title: Required'' @ [CHR 0x0A]
            @ ''mode: Invalid enum value'' @ [CHR 0x0A] @ ''Unrecognized key'')))
   \<and> world (snd (call_tool_handler example_security ''T'' (call_request ''echo'' (JObj []))
          (example_server [(''echo'', echo_tool_with order_schema)] 0))) = 0
   \<and> calls (snd (call_tool_handler example_security ''T'' (call_request ''echo'' (JObj []))
          (example_server [(''echo'', echo_tool_with order_schema)] 0)))
     = [CallValidateMessageSize, CallUpdateActivity, CallCheckLimit ''tools/call'',
        CallParse ''echo'']"
proof -
  let ?req = "call_request ''echo'' (JObj [])"
  let ?t = "echo_tool_with order_schema"
  let ?s = "example_server [(''echo'', ?t)] 0"
  let ?kvs = "[(''name'', JStr ''echo''), (''arguments'', JObj [])]"
  let ?errors = "[ZodIssue [Key ''items'', Index 12, Key ''title''] ''Required'',
                  ZodIssue [Key ''mode''] ''Invalid enum value'',
                  ZodIssue [] ''Unrecognized key'']"
  obtain res s1 where v: "validateRequest example_security ?req ?s = (res, s1)"
    by (cases "validateRequest example_security ?req ?s") blast
  then have "res = Inr ()"
    by (auto simp add: validateRequest_def Let_def example_security_def example_server_def
          call_request_def)
  with v have adm: "validateRequest example_security ?req ?s = (Inr (), s1)" by simp
  have par: "params ?req = Some (JObj ?kvs)" by (simp add: call_request_def)
  have nm: "map_of ?kvs ''name'' = Some (JStr ''echo'')" "''echo'' \<noteq> []" by simp_all
  have tl: "map_of (tools ?s) ''echo'' = Some ?t" by (simp add: example_server_def)
  have bad: "parse (inputSchema ?t) (map_of ?kvs ''arguments'') = Inl (ThrownZodError ?errors)"
    by (simp add: echo_tool_with_def order_schema_def)
  have twelve: "show_nat 12 = ''12''" by code_simp
  have digits: "digit_char (Suc 0) = CHR ''1''" "digit_char 2 = CHR ''2''" by code_simp+
  have m: "request_method ?req = ''tools/call''" by (simp add: call_request_def)
  have w: "world ?s = 0" "calls ?s = []" by (simp_all add: example_server_def)
  show ?thesis
    using rejected_arguments_never_reach_handler [OF adm par nm tl bad, of "''T''"]
    unfolding m w by (simp add: twelve digits)
qed

text \<open>
  Against C6 as stated: a schema handler that rejects the arguments with a plain \<open>Error\<close>
  makes the call fail with \<open>InternalError\<close>, not with \<open>InvalidParams\<close> and a list of
  fields.
\<close>

theorem plain_rejection_counterexample:
  "parse (inputSchema (echo_tool_with plain_schema)) (Some (JObj [(''message'', JNum 3)]))
     = Inl (ThrownError ''message must be a string'')
   \<and> fst (call_tool_handler example_security ''T''
          (call_request ''echo'' (JObj [(''message'', JNum 3)]))
          (example_server [(''echo'', echo_tool_with plain_schema)] 0))
     = Inl (ThrownMcpError (McpError InternalError
              ''Tool execution failed: message must be a string''))"
  by (simp add: call_tool_handler_def validateRequest_def Let_def example_security_def
        example_server_def call_request_def try_block_def echo_tool_with_def echo_tool_def
        plain_schema_def)

text \<open>
  C7 (as the code has it). When a call-tool request reaches a registered tool, its
  arguments parse, and the handler throws, the call fails, and the error depends on what
  was thrown: an \<open>McpError\<close> passes through unchanged; a \<open>ZodError\<close> is reported as
  \<open>InvalidParams\<close> with the same multi-line message as an argument validation failure;
  any other \<open>Error\<close> becomes \<open>InternalError\<close> with ``Tool execution failed: '' followed
  by the original message; any other thrown value becomes \<open>InternalError\<close> with that
  prefix followed by the value rendered as a string.
\<close>

theorem handler_failure_wrapped:
  assumes adm: "validateRequest sec req s = (Inr u, s1)"
      and par: "params req = Some (JObj kvs)"
      and nm: "map_of kvs ''name'' = Some (JStr n)" "n \<noteq> []"
      and tl: "map_of (tools s) n = Some t"
      and good: "parse (inputSchema t) (map_of kvs ''arguments'') = Inr v"
      and thr: "fst (handler t v (world s)) = Inl e"
  shows "fst (call_tool_handler sec now req s) =
           Inl (case e of
                  ThrownMcpError m \<Rightarrow> ThrownMcpError m
                | ThrownZodError errors \<Rightarrow>
                    ThrownMcpError (McpError InvalidParams
                      (''Invalid arguments:'' @ newline @ join newline (map format_issue errors)))
                | ThrownError msg \<Rightarrow>
                    ThrownMcpError (McpError InternalError (''Tool execution failed: '' @ msg))
                | ThrownValue str \<Rightarrow>
                    ThrownMcpError (McpError InternalError (''Tool execution failed: '' @ str)))"
proof -
  have w: "world s1 = world s"
    using world_validateRequest [of sec req s] adm by simp
  show ?thesis
    using call_tool_handler_reaches_tool [OF adm par nm tl, of now] good thr w
    by (cases e) (simp_all add: try_block_def Let_def formattedErrors_def split: prod.splits)
qed

theorem handler_failure_wrapped_witness:
  "fst (call_tool_handler example_security ''T''
          (call_request ''echo'' (JObj [(''message'', JStr ''hi'')]))
          (example_server [(''echo'', failing_tool (ThrownError ''disk full''))] 0))
     = Inl (ThrownMcpError (McpError InternalError ''Tool execution failed: disk full''))"
proof -
  let ?req = "call_request ''echo'' (JObj [(''message'', JStr ''hi'')])"
  let ?t = "failing_tool (ThrownError ''disk full'')"
  let ?s = "example_server [(''echo'', ?t)] 0"
  let ?kvs = "[(''name'', JStr ''echo''), (''arguments'', JObj [(''message'', JStr ''hi'')])]"
  obtain res s1 where v: "validateRequest example_security ?req ?s = (res, s1)"
    by (cases "validateRequest example_security ?req ?s") blast
  then have "res = Inr ()"
    by (auto simp add: validateRequest_def Let_def example_security_def example_server_def
          call_request_def)
  with v have adm: "validateRequest example_security ?req ?s = (Inr (), s1)" by simp
  have par: "params ?req = Some (JObj ?kvs)" by (simp add: call_request_def)
  have nm: "map_of ?kvs ''name'' = Some (JStr ''echo'')" "''echo'' \<noteq> []" by simp_all
  have tl: "map_of (tools ?s) ''echo'' = Some ?t" by (simp add: example_server_def)
  have good: "parse (inputSchema ?t) (map_of ?kvs ''arguments'') = Inr (JStr ''hi'')"
    by (simp add: failing_tool_def echo_schema_def)
  have thr: "fst (handler ?t (JStr ''hi'') (world ?s)) = Inl (ThrownError ''disk full'')"
    by (simp add: failing_tool_def)
  show ?thesis
    using handler_failure_wrapped [OF adm par nm tl good thr, of "''T''"] by simp
qed

text \<open>
  Against C7 as stated: a handler that throws a \<open>ZodError\<close> (not an \<open>McpError\<close>) makes
  the call fail with \<open>InvalidParams\<close>, neither wrapped into \<open>InternalError\<close> nor passed
  through.
\<close>

theorem handler_zod_error_counterexample:
  "fst (call_tool_handler example_security ''T''
          (call_request ''echo'' (JObj [(''message'', JStr ''hi'')]))
          (example_server [(''echo'', failing_tool (ThrownZodError [ZodIssue [Key ''path''] ''Required'']))] 0))
     = Inl (ThrownMcpError (McpError InvalidParams (''Invalid arguments:'' @ newline @ ''path: Required'')))
   \<and> fst (handler (failing_tool (ThrownZodError [ZodIssue [Key ''path''] ''Required''])) (JStr ''hi'') 0)
     = Inl (ThrownZodError [ZodIssue [Key ''path''] ''Required''])"
  by (simp add: call_tool_handler_def validateRequest_def Let_def example_security_def
        example_server_def call_request_def try_block_def failing_tool_def echo_schema_def
        formattedErrors_def format_issue_def)

section \<open>Properties of the HTTP request handler\<close>

lemma http_request_handler_other_path:
  "pathname req \<noteq> Some (path config) \<Longrightarrow> http_request_handler config handleRequest req = not_found"
  by (simp add: http_request_handler_def)

text \<open>
  C3. The claim asks that the configured path followed by repeated copies of itself be
  accepted. The handler compares the path name with the configured path for equality:
  with the configured path \<open>/mcp\<close>, a request to \<open>/mcp/mcp\<close> is answered
  \<open>404 Not Found\<close>, whatever its method and whatever the transport would do.
\<close>

theorem repeated_segment_not_found:
  "http_request_handler mcp_config handleRequest
     \<lparr>http_method = m, pathname = Some ''/mcp/mcp''\<rparr> = not_found"
  by (simp add: http_request_handler_def mcp_config_def)

text \<open>
  C4. The claim asks for a legacy discovery endpoint on a fixed sub-path. The handler has
  no such route: with the configured path \<open>/mcp\<close>, a \<open>POST\<close> to \<open>/mcp/list_actions\<close> is
  answered \<open>404 Not Found\<close> and no tool list is produced.
\<close>

theorem list_actions_not_found:
  "http_request_handler mcp_config handleRequest
     \<lparr>http_method = ''POST'', pathname = Some ''/mcp/list_actions''\<rparr>
     = \<lparr>status = 404, headers = [], body = ''Not Found''\<rparr>"
  by (simp add: http_request_handler_def mcp_config_def not_found_def)

section \<open>Properties of the start-up validation\<close>

lemma validation_failure_wins:
  assumes "vaultArgs \<noteq> []" and "lefts (map (validate_vault_path env) vaultArgs) \<noteq> []"
  shows "main env vaultArgs = Exit (lefts (map (validate_vault_path env) vaultArgs))"
  using assms by (simp add: main_def normalizedPaths_def Let_def)

lemma validate_vault_path_never_too_many: "validate_vault_path env p \<noteq> Inl (TooManyVaults n)"
proof -
  have a: "config_catch p e \<noteq> TooManyVaults n" for e by (cases e) simp_all
  have b: "directory_catch p e \<noteq> TooManyVaults n" for e by (cases e) simp_all
  show ?thesis
    using a b
    by (auto simp add: validate_vault_path_def check_directory_def check_obsidian_config_def
          Let_def split: option.splits sum.splits if_splits)
qed

lemma lefts_mem: "e \<in> set (lefts rs) \<Longrightarrow> Inl e \<in> set rs"
  by (induction rs rule: lefts.induct) auto

lemma too_many_only_after_validation:
  assumes "main env vaultArgs = Exit [TooManyVaults n]"
  shows "lefts (map (validate_vault_path env) vaultArgs) = [] \<and> n = length vaultArgs"
proof (cases "lefts (map (validate_vault_path env) vaultArgs) = []")
  case True
  then show ?thesis
    using assms
    by (auto simp add: main_def normalizedPaths_def Let_def split: if_splits option.splits)
next
  case False
  then have "lefts (map (validate_vault_path env) vaultArgs) = [TooManyVaults n]"
    using assms by (auto simp add: main_def normalizedPaths_def Let_def split: if_splits)
  then have "Inl (TooManyVaults n) \<in> set (map (validate_vault_path env) vaultArgs)"
    using lefts_mem [of "TooManyVaults n" "map (validate_vault_path env) vaultArgs"] by simp
  then obtain p where "validate_vault_path env p = Inl (TooManyVaults n)" by auto
  then show ?thesis using validate_vault_path_never_too_many by blast
qed

text \<open>
  C2. The claim asks that more than ten vault arguments be rejected before any vault is
  validated. \<open>main\<close> validates every argument first and compares the count with
  \<open>MAX_VAULTS\<close> afterwards: with eleven arguments, ten initialised vaults and one
  directory that does not exist, the process exits with the validation error of the
  eleventh argument and never reports the count.
\<close>

theorem eleven_vaults_validated_first:
  "main (example_env ten_vaults) (ten_vaults @ [''/v/missing''])
     = Exit [VaultDirectoryDoesNotExist ''/v/missing'']
   \<and> MAX_VAULTS < length (ten_vaults @ [''/v/missing''])"
  by (simp add: main_def normalizedPaths_def validate_vault_path_def check_directory_def
        check_obsidian_config_def path_join_def example_env_def ten_vaults_def
        vault_directories_def vault_files_def MAX_VAULTS_def Let_def)

lemma main_ignores_checkPathCharacters:
  "main (env\<lparr>checkPathCharacters := f\<rparr>) vaultArgs = main env vaultArgs"
proof -
  have "validate_vault_path (env\<lparr>checkPathCharacters := f\<rparr>) = validate_vault_path env"
    by (rule ext)
       (simp add: validate_vault_path_def check_directory_def check_obsidian_config_def Let_def
          split: option.splits sum.splits)
  moreover have "vaults_of (env\<lparr>checkPathCharacters := f\<rparr>) = vaults_of env"
    by (rule ext) (simp add: vaults_of_def)
  ultimately show ?thesis
    by (simp add: main_def normalizedPaths_def Let_def split: option.splits)
qed













section \<open>Properties of the vault name disambiguation\<close>

lemma while_used_result:
  "uniqueName \<in> set usedNames \<Longrightarrow>
     \<exists>k\<ge>counter. while_used usedNames base uniqueName counter = suffixed base k
        \<and> suffixed base k \<notin> set usedNames
        \<and> (\<forall>j. counter \<le> j \<and> j < k \<longrightarrow> suffixed base j \<in> set usedNames)"
proof (induction usedNames base uniqueName counter rule: while_used.induct)
  case (1 usedNames base uniqueName counter)
  have step: "while_used usedNames base uniqueName counter
                = while_used usedNames base (suffixed base counter) (counter + 1)"
    using "1.prems" by (subst while_used.simps) simp
  show ?case
  proof (cases "suffixed base counter \<in> set usedNames")
    case False
    then have "while_used usedNames base (suffixed base counter) (counter + 1) = suffixed base counter"
      by (subst while_used.simps) simp
    with step False show ?thesis by auto
  next
    case True
    from "1.IH" [OF "1.prems" True] obtain k where k: "counter + 1 \<le> k"
      "while_used usedNames base (suffixed base counter) (counter + 1) = suffixed base k"
      "suffixed base k \<notin> set usedNames"
      "\<forall>j. counter + 1 \<le> j \<and> j < k \<longrightarrow> suffixed base j \<in> set usedNames"
      by blast
    have "\<forall>j. counter \<le> j \<and> j < k \<longrightarrow> suffixed base j \<in> set usedNames"
    proof (intro allI impI)
      fix j assume j: "counter \<le> j \<and> j < k"
      show "suffixed base j \<in> set usedNames"
      proof (cases "j = counter")
        case True
        then show ?thesis using \<open>suffixed base counter \<in> set usedNames\<close> by simp
      next
        case False
        then have "counter + 1 \<le> j \<and> j < k" using j by simp
        then show ?thesis using k(4) by blast
      qed
    qed
    moreover have "counter \<le> k" using k(1) by simp
    ultimately show ?thesis using step k(2) k(3) by auto
  qed
qed

lemma unique_name_fresh:
  "vaultName \<notin> set usedNames \<Longrightarrow> unique_name usedNames vaultName = vaultName"
  by (simp add: unique_name_def)

lemma unique_name_taken:
  assumes "vaultName \<in> set usedNames"
  shows "\<exists>k\<ge>1. unique_name usedNames vaultName = suffixed vaultName k
           \<and> suffixed vaultName k \<notin> set usedNames
           \<and> (\<forall>j. 1 \<le> j \<and> j < k \<longrightarrow> suffixed vaultName j \<in> set usedNames)"
  using while_used_result [OF assms, of 1 vaultName] assms by (simp add: unique_name_def)

lemma unique_name_not_used: "unique_name usedNames vaultName \<notin> set usedNames"
  using unique_name_fresh [of vaultName usedNames] unique_name_taken [of vaultName usedNames]
  by (cases "vaultName \<in> set usedNames") auto

lemma fold_forEach_step_inv:
  "set (snd (fold forEach_step vs ([], []))) = vault_name ` set (fst (fold forEach_step vs ([], [])))
   \<and> length (fst (fold forEach_step vs ([], []))) = length vs"
proof (induction vs rule: rev_induct)
  case Nil
  then show ?case by simp
next
  case (snoc v vs)
  then show ?case by (auto simp add: forEach_step_def Let_def)
qed

lemma length_uniqueVaults: "length (uniqueVaults vaults) = length vaults"
  using fold_forEach_step_inv [of vaults] by (simp add: uniqueVaults_def)

lemma set_usedNames_after: "set (usedNames_after vaults) = vault_name ` set (uniqueVaults vaults)"
  using fold_forEach_step_inv [of vaults] by (simp add: uniqueVaults_def usedNames_after_def)

lemma uniqueVaults_snoc:
  "uniqueVaults (vs @ [v]) =
     uniqueVaults vs @ [VaultConfig (unique_name (usedNames_after vs) (vault_name v)) (vault_path v)]"
  by (simp add: uniqueVaults_def usedNames_after_def forEach_step_def Let_def)

lemma take_uniqueVaults: "take i (uniqueVaults vaults) = uniqueVaults (take i vaults)"
proof (induction vaults rule: rev_induct)
  case Nil
  then show ?case by (simp add: uniqueVaults_def)
next
  case (snoc v vs)
  show ?case
  proof (cases "i \<le> length vs")
    case True
    then show ?thesis using snoc by (simp add: uniqueVaults_snoc length_uniqueVaults)
  next
    case False
    then show ?thesis by (simp add: length_uniqueVaults)
  qed
qed

lemma uniqueVaults_nth:
  assumes "i < length vaults"
  shows "uniqueVaults vaults ! i =
           VaultConfig (unique_name (usedNames_after (take i vaults)) (vault_name (vaults ! i)))
                       (vault_path (vaults ! i))"
proof -
  have "uniqueVaults vaults ! i = take (Suc i) (uniqueVaults vaults) ! i" by simp
  also have "\<dots> = uniqueVaults (take (Suc i) vaults) ! i" by (simp only: take_uniqueVaults)
  also have "\<dots> = uniqueVaults (take i vaults @ [vaults ! i]) ! i"
    using assms by (simp add: take_Suc_conv_app_nth)
  also have "\<dots> = VaultConfig (unique_name (usedNames_after (take i vaults)) (vault_name (vaults ! i)))
                       (vault_path (vaults ! i))"
    using assms by (simp add: uniqueVaults_snoc nth_append length_uniqueVaults)
  finally show ?thesis .
qed

lemma distinct_uniqueVaults: "distinct (map vault_name (uniqueVaults vaults))"
proof (induction vaults rule: rev_induct)
  case Nil
  then show ?case by (simp add: uniqueVaults_def)
next
  case (snoc v vs)
  then show ?case
    using unique_name_not_used [of "usedNames_after vs" "vault_name v"]
    by (simp add: uniqueVaults_snoc set_usedNames_after)
qed

text \<open>
  C9 (as the code has it). Disambiguation is a function of the ordered list, and the
  names given to the first \<open>i\<close> vaults depend on those vaults only. The vault at
  position \<open>i\<close> keeps its path. It keeps its sanitized name when that name has not been
  given to an earlier vault; otherwise it gets the name with the suffix \<open>-k\<close> for the
  least \<open>k \<ge> 1\<close> such that the suffixed name has not been given to an earlier vault. In
  both cases its name differs from every name given before.
\<close>

theorem uniqueVaults_disambiguation:
  assumes "i < length vaults"
  shows "vault_path (uniqueVaults vaults ! i) = vault_path (vaults ! i)
       \<and> (vault_name (vaults ! i) \<notin> vault_name ` set (take i (uniqueVaults vaults)) \<longrightarrow>
            vault_name (uniqueVaults vaults ! i) = vault_name (vaults ! i))
       \<and> (vault_name (vaults ! i) \<in> vault_name ` set (take i (uniqueVaults vaults)) \<longrightarrow>
            (\<exists>k\<ge>1. vault_name (uniqueVaults vaults ! i) = suffixed (vault_name (vaults ! i)) k
               \<and> (\<forall>j. 1 \<le> j \<and> j < k \<longrightarrow>
                     suffixed (vault_name (vaults ! i)) j
                       \<in> vault_name ` set (take i (uniqueVaults vaults)))))
       \<and> vault_name (uniqueVaults vaults ! i) \<notin> vault_name ` set (take i (uniqueVaults vaults))
       \<and> take i (uniqueVaults vaults) = uniqueVaults (take i vaults)"
proof -
  let ?used = "usedNames_after (take i vaults)"
  let ?n = "vault_name (vaults ! i)"
  have used: "set ?used = vault_name ` set (take i (uniqueVaults vaults))"
    by (simp add: set_usedNames_after take_uniqueVaults)
  have nth: "uniqueVaults vaults ! i = VaultConfig (unique_name ?used ?n) (vault_path (vaults ! i))"
    using uniqueVaults_nth [OF assms] .
  have a: "?n \<notin> set ?used \<longrightarrow> unique_name ?used ?n = ?n"
    using unique_name_fresh by blast
  have b: "?n \<in> set ?used \<longrightarrow> (\<exists>k\<ge>1. unique_name ?used ?n = suffixed ?n k
              \<and> (\<forall>j. 1 \<le> j \<and> j < k \<longrightarrow> suffixed ?n j \<in> set ?used))"
    using unique_name_taken [of ?n ?used] by blast
  have c: "unique_name ?used ?n \<notin> set ?used"
    by (rule unique_name_not_used)
  show ?thesis
    using a b c unfolding used nth by (simp add: take_uniqueVaults)
qed

theorem uniqueVaults_disambiguation_witness:
  "vault_name (uniqueVaults colliding_vaults ! 1) = ''a-1''
   \<and> vault_path (uniqueVaults colliding_vaults ! 1) = ''/x/a''"
proof -
  have l: "(1::nat) < length colliding_vaults" by (simp add: colliding_vaults_def)
  have n: "colliding_vaults ! 1 = VaultConfig ''a'' ''/x/a''" by (simp add: colliding_vaults_def)
  have "take 1 (uniqueVaults colliding_vaults) = [VaultConfig ''a'' ''/w/a'']"
    unfolding colliding_vaults_def by code_simp
  then have t: "vault_name ` set (take 1 (uniqueVaults colliding_vaults)) = {''a''}"
    by simp
  note th = uniqueVaults_disambiguation [OF l]
  have p: "vault_path (uniqueVaults colliding_vaults ! 1) = vault_path (colliding_vaults ! 1)"
    using th by (rule conjunct1)
  have "vault_name (colliding_vaults ! 1) \<in> vault_name ` set (take 1 (uniqueVaults colliding_vaults)) \<longrightarrow>
            (\<exists>k\<ge>1. vault_name (uniqueVaults colliding_vaults ! 1)
                       = suffixed (vault_name (colliding_vaults ! 1)) k
               \<and> (\<forall>j. 1 \<le> j \<and> j < k \<longrightarrow>
                     suffixed (vault_name (colliding_vaults ! 1)) j
                       \<in> vault_name ` set (take 1 (uniqueVaults colliding_vaults))))"
    using th by (rule conjunct1 [OF conjunct2 [OF conjunct2]])
  then have "\<exists>k\<ge>1. vault_name (uniqueVaults colliding_vaults ! 1) = suffixed ''a'' k
               \<and> (\<forall>j. 1 \<le> j \<and> j < k \<longrightarrow> suffixed ''a'' j \<in> {''a''})"
    unfolding n t by simp
  then obtain k where k1: "1 \<le> k"
    and k2: "vault_name (uniqueVaults colliding_vaults ! 1) = suffixed ''a'' k"
    and k3: "\<forall>j. 1 \<le> j \<and> j < k \<longrightarrow> suffixed ''a'' j \<in> {''a''}"
    by blast
  have fresh: "suffixed ''a'' 1 \<notin> {''a''}" by (simp add: suffixed_def)
  have "k = 1"
  proof (rule ccontr)
    assume "k \<noteq> 1"
    with k1 have "1 \<le> (1::nat) \<and> 1 < k" by simp
    with k3 have "suffixed ''a'' 1 \<in> {''a''}" by blast
    with fresh show False by simp
  qed
  moreover have "suffixed ''a'' 1 = ''a-1''"
    by code_simp
  ultimately show ?thesis using k2 p n by simp
qed

text \<open>
  Against C9 as stated: of the two paths whose sanitized name is \<open>a-1\<close>, the first seen
  does not keep the bare name, because the second \<open>a\<close> has been given \<open>a-1\<close> before.
\<close>

theorem first_seen_loses_bare_name_counterexample:
  "map vault_name colliding_vaults = [''a'', ''a'', ''a-1'', ''a-1'']
   \<and> map vault_name (uniqueVaults colliding_vaults) = [''a'', ''a-1'', ''a-1-1'', ''a-1-2'']"
  unfolding colliding_vaults_def by code_simp

end
